theory Spec2Isabelle
  imports Complex_Main "HOL-Library.Word" "HOL-Library.Multiset"
begin

section \<open>BSON values and documents\<close>

text \<open>
  The driver hands the program BSON values. A document on the wire (and Go's \<open>bson.D\<close>)
  is an ordered sequence of (key, value) elements. The numeric types are kept apart,
  because the code's type assertions (\<open>.(int32)\<close>, \<open>.(bool)\<close>) tell them apart; a double
  is carried as its 64-bit pattern, no arithmetic is done on it.
\<close>

datatype bval =
    BDouble "64 word"
  | BString string
  | BDoc "(string \<times> bval) list"
  | BBool bool
  | BNull
  | BInt32 "32 word"
  | BInt64 "64 word"

type_synonym bsonD = "(string \<times> bval) list"

text \<open>
  Go's \<open>bson.M\<close> is \<open>map[string]interface{}\<close>: an unordered map. Decoding a wire
  document into it keeps, for a repeated key, the element that comes last, and forgets
  the order of the elements.
\<close>

type_synonym bsonM = "string \<rightharpoonup> bval"

definition decodeM :: "bsonD \<Rightarrow> bsonM" where
  "decodeM d = map_of (rev d)"

section \<open>Index models (driver types \<open>options.IndexOptions\<close>, \<open>mongo.IndexModel\<close>)\<close>

text \<open>
  Only the option fields the program sets are kept; each is a pointer in the driver
  (unset = \<open>None\<close>).
\<close>

record IndexOptions =
  Unique :: "bool option"
  Sparse :: "bool option"
  ExpireAfterSeconds :: "32 word option"
  PartialFilterExpression :: "bval option"
  Background :: "bool option"

definition options_Index :: IndexOptions where
  "options_Index = \<lparr>Unique = None, Sparse = None, ExpireAfterSeconds = None,
                     PartialFilterExpression = None, Background = None\<rparr>"

record IndexModel =
  Keys :: bsonD
  Options :: "IndexOptions option"

section \<open>Errors\<close>

text \<open>
  Every \<open>fmt.Errorf\<close> of the source is one constructor; the string argument is the text
  of the wrapped driver error (\<open>%w\<close>) or the collection name (\<open>%s\<close>).
\<close>

datatype index_error =
    IdxList string
  | IdxDecode string
  | IdxKeyFormat
  | IdxCursor string

datatype error =
    ErrCheckDest string
  | ErrDestExists string
  | ErrGetIndexes index_error
  | ErrDrop string
  | ErrCreateIndexes string
  | ErrCount string
  | ErrFind string
  | ErrDecodeDocument string
  | ErrInsertBatch string
  | ErrInsertFinalBatch string
  | ErrCursor string
  | ErrConnect string

fun index_error_string :: "index_error \<Rightarrow> string" where
  "index_error_string (IdxList m) = ''failed to list indexes: '' @ m"
| "index_error_string (IdxDecode m) = ''failed to decode index: '' @ m"
| "index_error_string IdxKeyFormat = ''invalid index key format''"
| "index_error_string (IdxCursor m) = ''cursor error: '' @ m"

fun error_string :: "error \<Rightarrow> string" where
  "error_string (ErrCheckDest m) = ''failed to check destination collection: '' @ m"
| "error_string (ErrDestExists c) =
     ''destination collection '' @ c @ '' already exists and overwrite is not enabled''"
| "error_string (ErrGetIndexes e) =
     ''failed to get source collection indexes: '' @ index_error_string e"
| "error_string (ErrDrop m) = ''failed to drop destination collection: '' @ m"
| "error_string (ErrCreateIndexes m) = ''failed to create indexes: '' @ m"
| "error_string (ErrCount m) = ''failed to count documents: '' @ m"
| "error_string (ErrFind m) = ''failed to execute find: '' @ m"
| "error_string (ErrDecodeDocument m) = ''failed to decode document: '' @ m"
| "error_string (ErrInsertBatch m) = ''failed to insert batch: '' @ m"
| "error_string (ErrInsertFinalBatch m) = ''failed to insert final batch: '' @ m"
| "error_string (ErrCursor m) = ''cursor error: '' @ m"
| "error_string (ErrConnect m) = m"

section \<open>The two databases as seen through the driver\<close>

text \<open>
  The destination database is the state the transfer mutates: a map from collection
  names to collections. A collection that is not in the map does not exist.
\<close>

record collection =
  documents :: "bsonM list"
  indexes :: "IndexModel list"

type_synonym database = "string \<rightharpoonup> collection"

text \<open>
  Everything else the driver answers during one collection transfer is collected in
  an environment: what the source holds, which calls fail (with the driver's error
  text), and the order in which the Go runtime visits a map in a \<open>range\<close> loop (the
  language leaves that order unspecified).

  \<^item> \<open>src_index_items\<close>: what the index cursor yields, element by element: a raw index
    description, or the error of \<open>cursor.Decode\<close>;
  \<open>src_index_cursor_err\<close>: the cursor's error once \<open>Next\<close> has returned false.
  \<^item> \<open>src_items\<close>, \<open>src_cursor_err\<close>: the same for the document cursor of \<open>Find\<close>.
  \<^item> \<open>dst_insert n batch\<close>: the answer to the \<open>n\<close>-th \<open>InsertMany\<close> (counting from 0):
    \<open>None\<close> is success; \<open>Some (m, ws)\<close> is the error \<open>m\<close>, the documents \<open>ws\<close> having been
    written nevertheless (the insert is unordered).
  A failed \<open>Drop\<close> or \<open>CreateMany\<close> is taken to leave the destination as it was.
\<close>

record env =
  src_connect_err :: "string option"
  dst_connect_err :: "string option"
  dst_list_err :: "string option"
  src_index_list_err :: "string option"
  src_index_items :: "(string + bsonD) list"
  src_index_cursor_err :: "string option"
  range_order :: "bsonM \<Rightarrow> bsonD"
  dst_drop_err :: "string option"
  dst_create_err :: "string option"
  src_count :: "string + int"
  src_find_err :: "string option"
  src_items :: "(string + bsonD) list"
  src_cursor_err :: "string option"
  dst_insert :: "nat \<Rightarrow> bsonM list \<Rightarrow> (string \<times> bsonM list) option"

text \<open>The driver calls the transfer makes, in the order it makes them.\<close>

datatype event =
    EvListCollectionNames
  | EvListIndexes
  | EvDrop
  | EvCreateMany nat
  | EvCountDocuments
  | EvFind
  | EvInsertMany nat bool

definition ListCollectionNames :: "env \<Rightarrow> database \<Rightarrow> string \<Rightarrow> string + string list" where
  "ListCollectionNames e db name =
     (case dst_list_err e of
        Some m \<Rightarrow> Inl m
      | None \<Rightarrow> Inr (if db name = None then [] else [name]))"

definition Drop :: "env \<Rightarrow> database \<Rightarrow> string \<Rightarrow> string + database" where
  "Drop e db name =
     (case dst_drop_err e of
        Some m \<Rightarrow> Inl m
      | None \<Rightarrow> Inr (db(name := None)))"

definition the_collection :: "database \<Rightarrow> string \<Rightarrow> collection" where
  "the_collection db name =
     (case db name of
        None \<Rightarrow> \<lparr>documents = [], indexes = []\<rparr>
      | Some c \<Rightarrow> c)"

definition CreateMany :: "env \<Rightarrow> database \<Rightarrow> string \<Rightarrow> IndexModel list \<Rightarrow> string + database" where
  "CreateMany e db name ixs =
     (case dst_create_err e of
        Some m \<Rightarrow> Inl m
      | None \<Rightarrow>
          Inr (db(name \<mapsto> (the_collection db name)
                 \<lparr>indexes := indexes (the_collection db name) @ ixs\<rparr>)))"

definition write_documents :: "database \<Rightarrow> string \<Rightarrow> bsonM list \<Rightarrow> database" where
  "write_documents db name ds =
     (if ds = [] then db
      else db(name \<mapsto> (the_collection db name)
                 \<lparr>documents := documents (the_collection db name) @ ds\<rparr>))"

definition InsertMany ::
  "env \<Rightarrow> nat \<Rightarrow> database \<Rightarrow> string \<Rightarrow> bsonM list \<Rightarrow> string option \<times> database" where
  "InsertMany e n db name batch =
     (case dst_insert e n batch of
        None \<Rightarrow> (None, write_documents db name batch)
      | Some (m, ws) \<Rightarrow> (Some m, write_documents db name ws))"

section \<open>\<open>getCollectionIndexes\<close>\<close>

text \<open>
  The body of the cursor loop for one decoded index description; \<open>None\<close> is the
  \<open>continue\<close> of the identity index.
\<close>

definition index_model_of :: "(bsonM \<Rightarrow> bsonD) \<Rightarrow> bsonM \<Rightarrow> index_error + IndexModel option" where
  "index_model_of rng index =
     (if index ''name'' = Some (BString ''_id_'') then Inr None
      else
        (case index ''key'' of
           Some (BDoc k) \<Rightarrow>
             (let keyM = decodeM k;
                  keyD = rng keyM;
                  o0 = options_Index;
                  o1 = (case index ''unique'' of
                          Some (BBool unique) \<Rightarrow> o0\<lparr>Unique := Some unique\<rparr>
                        | _ \<Rightarrow> o0);
                  o2 = (case index ''sparse'' of
                          Some (BBool sparse) \<Rightarrow> o1\<lparr>Sparse := Some sparse\<rparr>
                        | _ \<Rightarrow> o1);
                  o3 = (case index ''expireAfterSeconds'' of
                          Some (BInt32 expireAfterSeconds) \<Rightarrow>
                            o2\<lparr>ExpireAfterSeconds := Some expireAfterSeconds\<rparr>
                        | _ \<Rightarrow> o2);
                  o4 = (case index ''partialFilterExpression'' of
                          Some partialFilterExpression \<Rightarrow>
                            o3\<lparr>PartialFilterExpression := Some partialFilterExpression\<rparr>
                        | None \<Rightarrow> o3)
              in Inr (Some \<lparr>Keys = keyD, Options = Some o4\<rparr>))
         | _ \<Rightarrow> Inl IdxKeyFormat))"

fun index_loop ::
  "(bsonM \<Rightarrow> bsonD) \<Rightarrow> (string + bsonD) list \<Rightarrow> IndexModel list \<Rightarrow> index_error + IndexModel list" where
  "index_loop rng [] acc = Inr acc"
| "index_loop rng (Inl m # rest) acc = Inl (IdxDecode m)"
| "index_loop rng (Inr raw # rest) acc =
     (case index_model_of rng (decodeM raw) of
        Inl err \<Rightarrow> Inl err
      | Inr None \<Rightarrow> index_loop rng rest acc
      | Inr (Some im) \<Rightarrow> index_loop rng rest (acc @ [im]))"

definition getCollectionIndexes :: "env \<Rightarrow> index_error + IndexModel list" where
  "getCollectionIndexes e =
     (case src_index_list_err e of
        Some m \<Rightarrow> Inl (IdxList m)
      | None \<Rightarrow>
          (case index_loop (range_order e) (src_index_items e) [] of
             Inl err \<Rightarrow> Inl err
           | Inr ixs \<Rightarrow>
               (case src_index_cursor_err e of
                  Some m \<Rightarrow> Inl (IdxCursor m)
                | None \<Rightarrow> Inr ixs)))"

section \<open>\<open>transferCollection\<close>\<close>

text \<open>
  What one call returns (\<open>ret_count\<close>, \<open>ret_err\<close>: Go's \<open>(int, error)\<close>) and what it
  did: the driver calls it made, in order, and the destination database it leaves.
  Go's \<open>int\<close> is 64 bits wide here; a count is a number of documents read from a cursor
  one by one, far below \<open>2^63\<close>, so counts are unbounded integers.
\<close>

record run =
  ret_count :: int
  ret_err :: "error option"
  calls :: "event list"
  dest :: database

definition stop :: "int \<Rightarrow> error \<Rightarrow> event list \<Rightarrow> database \<Rightarrow> run" where
  "stop n err tr db = \<lparr>ret_count = n, ret_err = Some err, calls = tr, dest = db\<rparr>"

text \<open>\<open>after tr r\<close>: the calls \<open>tr\<close> were made first, then the rest of the function ran as \<open>r\<close>.\<close>

definition after :: "event list \<Rightarrow> run \<Rightarrow> run" where
  "after tr r = r\<lparr>calls := tr @ calls r\<rparr>"

text \<open>After the cursor loop: flush the remaining documents, then look at the cursor's error.\<close>

definition cursor_check :: "env \<Rightarrow> int \<Rightarrow> database \<Rightarrow> run" where
  "cursor_check e totalTransferred db =
     (case src_cursor_err e of
        Some m \<Rightarrow> stop totalTransferred (ErrCursor m) [] db
      | None \<Rightarrow> \<lparr>ret_count = totalTransferred, ret_err = None, calls = [], dest = db\<rparr>)"

definition final_flush ::
  "env \<Rightarrow> string \<Rightarrow> bsonM list \<Rightarrow> int \<Rightarrow> nat \<Rightarrow> database \<Rightarrow> run" where
  "final_flush e name batch totalTransferred n db =
     (if length batch > 0 then
        (case InsertMany e n db name batch of
           (Some m, db') \<Rightarrow>
             stop totalTransferred (ErrInsertFinalBatch m)
               [EvInsertMany (length batch) False] db'
         | (None, db') \<Rightarrow>
             after [EvInsertMany (length batch) True]
               (cursor_check e (totalTransferred + int (length batch)) db'))
      else cursor_check e totalTransferred db)"

text \<open>
  The cursor loop. Its state is the batch buffer, \<open>totalTransferred\<close>, the number of
  \<open>InsertMany\<close> calls made so far and the destination.
\<close>

fun copy_loop ::
  "env \<Rightarrow> string \<Rightarrow> int \<Rightarrow> (string + bsonD) list \<Rightarrow> bsonM list \<Rightarrow> int \<Rightarrow> nat
     \<Rightarrow> database \<Rightarrow> run" where
  "copy_loop e name batchSize [] batch totalTransferred n db =
     final_flush e name batch totalTransferred n db"
| "copy_loop e name batchSize (Inl m # rest) batch totalTransferred n db =
     stop totalTransferred (ErrDecodeDocument m) [] db"
| "copy_loop e name batchSize (Inr raw # rest) batch totalTransferred n db =
     (let batch' = batch @ [decodeM raw] in
      if int (length batch') \<ge> batchSize then
        (case InsertMany e n db name batch' of
           (Some m, db') \<Rightarrow>
             stop totalTransferred (ErrInsertBatch m)
               [EvInsertMany (length batch') False] db'
         | (None, db') \<Rightarrow>
             after [EvInsertMany (length batch') True]
               (copy_loop e name batchSize rest [] (totalTransferred + int (length batch'))
                  (Suc n) db'))
      else copy_loop e name batchSize rest batch' totalTransferred n db)"

text \<open>Count, find and copy (from \<open>CountDocuments\<close> to the end of the function).\<close>

definition copy_stage :: "env \<Rightarrow> string \<Rightarrow> int \<Rightarrow> database \<Rightarrow> run" where
  "copy_stage e name batchSize db =
     (case src_count e of
        Inl m \<Rightarrow> stop 0 (ErrCount m) [EvCountDocuments] db
      | Inr cnt \<Rightarrow>
          if cnt = 0 then
            \<lparr>ret_count = 0, ret_err = None, calls = [EvCountDocuments], dest = db\<rparr>
          else
            (case src_find_err e of
               Some m \<Rightarrow> stop 0 (ErrFind m) [EvCountDocuments, EvFind] db
             | None \<Rightarrow>
                 after [EvCountDocuments, EvFind]
                   (copy_loop e name batchSize (src_items e) [] 0 0 db)))"

definition set_background :: "IndexModel \<Rightarrow> IndexModel" where
  "set_background im =
     im\<lparr>Options :=
          Some ((case Options im of None \<Rightarrow> options_Index | Some opts \<Rightarrow> opts)
                  \<lparr>Background := Some True\<rparr>)\<rparr>"

text \<open>Index creation (skipped when there is no index to create), then the copy.\<close>

definition index_stage :: "env \<Rightarrow> string \<Rightarrow> int \<Rightarrow> IndexModel list \<Rightarrow> database \<Rightarrow> run" where
  "index_stage e name batchSize ixs db =
     (if length ixs > 0 then
        (case CreateMany e db name (map set_background ixs) of
           Inl m \<Rightarrow> stop 0 (ErrCreateIndexes m) [EvCreateMany (length ixs)] db
         | Inr db' \<Rightarrow> after [EvCreateMany (length ixs)] (copy_stage e name batchSize db'))
      else copy_stage e name batchSize db)"

text \<open>The drop of an existing destination collection when overwriting, then the rest.\<close>

definition drop_stage ::
  "env \<Rightarrow> string \<Rightarrow> int \<Rightarrow> bool \<Rightarrow> bool \<Rightarrow> IndexModel list \<Rightarrow> database \<Rightarrow> run" where
  "drop_stage e name batchSize collectionExists overwriteDestination ixs db =
     (if collectionExists \<and> overwriteDestination then
        (case Drop e db name of
           Inl m \<Rightarrow> stop 0 (ErrDrop m) [EvDrop] db
         | Inr db' \<Rightarrow> after [EvDrop] (index_stage e name batchSize ixs db'))
      else index_stage e name batchSize ixs db)"

definition transferCollection :: "env \<Rightarrow> database \<Rightarrow> string \<Rightarrow> int \<Rightarrow> bool \<Rightarrow> run" where
  "transferCollection e db collectionName batchSize0 overwriteDestination =
     (let batchSize = (if batchSize0 \<le> 0 then 100 else batchSize0) in
      case ListCollectionNames e db collectionName of
        Inl m \<Rightarrow> stop 0 (ErrCheckDest m) [EvListCollectionNames] db
      | Inr collections \<Rightarrow>
          (let collectionExists = (length collections > 0) in
           if collectionExists \<and> \<not> overwriteDestination then
             stop 0 (ErrDestExists collectionName) [EvListCollectionNames] db
           else
             (case getCollectionIndexes e of
                Inl err \<Rightarrow>
                  stop 0 (ErrGetIndexes err) [EvListCollectionNames, EvListIndexes] db
              | Inr ixs \<Rightarrow>
                  after [EvListCollectionNames, EvListIndexes]
                    (drop_stage e collectionName batchSize collectionExists
                       overwriteDestination ixs db))))"

section \<open>\<open>TransferCollection\<close> (package \<open>activities\<close>) and the result types (package \<open>models\<close>)\<close>

text \<open>
  \<open>TransferParams\<close> as \<open>main.go\<close> and \<open>transfer_activities.go\<close> use it, with the
  \<open>OverwriteDestination\<close> field they read.
\<close>

record TransferParams =
  SourceURI :: string
  DestinationURI :: string
  SourceDB :: string
  DestinationDB :: string
  Collections :: "string list"
  BatchSize :: int
  OverwriteDestination :: bool

record CollectionTransferResult =
  CollectionName :: string
  DocumentsCount :: int
  Success :: bool
  ErrorMessage :: string

record TransferResult =
  CollectionResults :: "CollectionTransferResult list"
  OverallSuccess :: bool
  TotalDocuments :: int

text \<open>
  The exported wrapper returns the result record and the error; \<open>t_calls\<close> and
  \<open>t_dest\<close> are the driver calls made and the destination left behind. The error of
  \<open>connectToMongoDB\<close> is carried whole (\<open>ErrConnect\<close>).
\<close>

record transfer =
  t_result :: CollectionTransferResult
  t_err :: "error option"
  t_calls :: "event list"
  t_dest :: database

definition TransferCollection :: "env \<Rightarrow> TransferParams \<Rightarrow> database \<Rightarrow> string \<Rightarrow> transfer" where
  "TransferCollection e params db collectionName =
     (let result = \<lparr>CollectionName = collectionName, DocumentsCount = 0,
                     Success = False, ErrorMessage = []\<rparr> in
      case src_connect_err e of
        Some m \<Rightarrow>
          \<lparr>t_result = result\<lparr>ErrorMessage := ''Failed to connect to source MongoDB: '' @ m\<rparr>,
           t_err = Some (ErrConnect m), t_calls = [], t_dest = db\<rparr>
      | None \<Rightarrow>
          (case dst_connect_err e of
             Some m \<Rightarrow>
               \<lparr>t_result =
                  result\<lparr>ErrorMessage := ''Failed to connect to destination MongoDB: '' @ m\<rparr>,
                t_err = Some (ErrConnect m), t_calls = [], t_dest = db\<rparr>
           | None \<Rightarrow>
               (let r = transferCollection e db collectionName (BatchSize params)
                          (OverwriteDestination params) in
                case ret_err r of
                  Some err \<Rightarrow>
                    \<lparr>t_result =
                       result\<lparr>ErrorMessage :=
                                ''Failed to transfer collection: '' @ error_string err\<rparr>,
                     t_err = Some err, t_calls = calls r, t_dest = dest r\<rparr>
                | None \<Rightarrow>
                    \<lparr>t_result = result\<lparr>DocumentsCount := ret_count r, Success := True\<rparr>,
                     t_err = None, t_calls = calls r, t_dest = dest r\<rparr>)))"

section \<open>\<open>GetCollections\<close> and \<open>runTransfer\<close> (the worker pool)\<close>

text \<open>
  What the run meets outside the collection transfers: the error of
  \<open>ValidateConnections\<close> if any, the error of the connection \<open>GetCollections\<close> opens, and
  the answer of the source database to \<open>ListCollectionNames\<close>.
\<close>

record run_env =
  validate_err :: "string option"
  get_connect_err :: "string option"
  src_collection_names :: "string + string list"

datatype run_error =
    ValidationFailed string
  | GetCollectionsFailed string

definition GetCollections :: "run_env \<Rightarrow> TransferParams \<Rightarrow> string + string list" where
  "GetCollections re params =
     (case get_connect_err re of
        Some m \<Rightarrow> Inl (''failed to connect to source MongoDB: '' @ m)
      | None \<Rightarrow>
          if length (Collections params) > 0 then Inr (Collections params)
          else
            (case src_collection_names re of
               Inl m \<Rightarrow> Inl (''failed to get collections list: failed to list collections: '' @ m)
             | Inr collections \<Rightarrow> Inr collections))"

text \<open>
  The pool. \<open>collectionCh\<close> is the buffered channel of names, filled and closed before
  the workers start; \<open>resultCh\<close> is the buffered channel of results, as large as the
  number of names, so a send never blocks. A worker is about to receive from
  \<open>collectionCh\<close>, or holds a name it has received and whose result it has not sent yet,
  or has left its \<open>range\<close> loop (\<open>wg.Done\<close>).

  The Go scheduler interleaves the workers as it likes. A schedule is a list of moves;
  a move names the worker that takes its next step and the environment its transfer
  meets. Receiving a name is one step; transferring the collection and sending the
  result is the next. The transfers of different workers overlap in time in the
  program; the pool reads nothing of a transfer but the result it sends, so the model
  runs each transfer in one step on the destination as it is then.
\<close>

datatype worker = Receiving | Holding string | Exited

record pool =
  collectionCh :: "string list"
  resultCh :: "CollectionTransferResult list"
  workers :: "worker list"
  shared_dest :: database

definition worker_step :: "TransferParams \<Rightarrow> nat \<times> env \<Rightarrow> pool \<Rightarrow> pool" where
  "worker_step params mv p =
     (let workerId = fst mv in
      if workerId < length (workers p) then
        (case workers p ! workerId of
           Receiving \<Rightarrow>
             (case collectionCh p of
                [] \<Rightarrow> p\<lparr>workers := (workers p)[workerId := Exited]\<rparr>
              | collName # rest \<Rightarrow>
                  p\<lparr>collectionCh := rest,
                    workers := (workers p)[workerId := Holding collName]\<rparr>)
         | Holding collName \<Rightarrow>
             (let t = TransferCollection (snd mv) params (shared_dest p) collName in
              p\<lparr>resultCh := resultCh p @ [t_result t],
                workers := (workers p)[workerId := Receiving],
                shared_dest := t_dest t\<rparr>)
         | Exited \<Rightarrow> p)
      else p)"

definition run_schedule :: "TransferParams \<Rightarrow> (nat \<times> env) list \<Rightarrow> pool \<Rightarrow> pool" where
  "run_schedule params sched p = fold (worker_step params) sched p"

definition all_exited :: "pool \<Rightarrow> bool" where
  "all_exited p = list_all (\<lambda>w. w = Exited) (workers p)"

definition start_pool :: "string list \<Rightarrow> int \<Rightarrow> database \<Rightarrow> pool" where
  "start_pool collections workerCount0 db =
     (let workerCount = (if workerCount0 \<le> 0 then 3 else workerCount0) in
      \<lparr>collectionCh = collections, resultCh = [],
       workers = replicate (nat workerCount) Receiving, shared_dest = db\<rparr>)"

text \<open>The loop that drains \<open>resultCh\<close> after \<open>wg.Wait\<close>, and the two assignments after it.\<close>

fun collect_results ::
  "CollectionTransferResult list \<Rightarrow> TransferResult \<Rightarrow> int \<Rightarrow> bool \<Rightarrow> TransferResult" where
  "collect_results [] result totalDocs allSuccessful =
     result\<lparr>TotalDocuments := totalDocs, OverallSuccess := allSuccessful\<rparr>"
| "collect_results (res # rest) result totalDocs allSuccessful =
     collect_results rest
       (result\<lparr>CollectionResults := CollectionResults result @ [res]\<rparr>)
       (totalDocs + DocumentsCount res)
       (if \<not> Success res then False else allSuccessful)"

text \<open>
  \<open>runTransfer\<close> under a schedule. \<open>None\<close>: the schedule ends while a worker has not left
  its loop, so \<open>wg.Wait\<close> has not returned yet.
\<close>

definition runTransfer ::
  "run_env \<Rightarrow> TransferParams \<Rightarrow> int \<Rightarrow> (nat \<times> env) list \<Rightarrow> database
     \<Rightarrow> (TransferResult \<times> run_error option \<times> database) option" where
  "runTransfer re params workerCount sched db =
     (let result = \<lparr>CollectionResults = [], OverallSuccess = True, TotalDocuments = 0\<rparr> in
      case validate_err re of
        Some m \<Rightarrow> Some (result, Some (ValidationFailed m), db)
      | None \<Rightarrow>
          (case GetCollections re params of
             Inl m \<Rightarrow> Some (result, Some (GetCollectionsFailed m), db)
           | Inr collections \<Rightarrow>
               if length collections = 0 then Some (result, None, db)
               else
                 (let p = run_schedule params sched (start_pool collections workerCount db) in
                  if all_exited p then
                    Some (collect_results (resultCh p) result 0 True, None, shared_dest p)
                  else None)))"

section \<open>Vocabulary for the properties\<close>

text \<open>A bulk insert; a call that changes the destination.\<close>

fun is_insert :: "event \<Rightarrow> bool" where
  "is_insert (EvInsertMany k ok) = True"
| "is_insert _ = False"

fun mutation :: "event \<Rightarrow> bool" where
  "mutation EvDrop = True"
| "mutation (EvCreateMany k) = True"
| "mutation (EvInsertMany k ok) = True"
| "mutation _ = False"

text \<open>
  How a transfer relates to its cursor loop: either it ended before the loop (no
  insert was issued, the count returned is 0, and it succeeded only if the source
  counted no document), or it is the loop, run after calls that are no inserts.
\<close>

definition loop_or_not :: "env \<Rightarrow> string \<Rightarrow> int \<Rightarrow> run \<Rightarrow> bool" where
  "loop_or_not e name B r \<longleftrightarrow>
     (list_all (\<lambda>ev. \<not> is_insert ev) (calls r) \<and> ret_count r = 0
        \<and> (ret_err r = None \<longrightarrow> src_count e = Inr 0))
   \<or> (\<exists>pre db' cnt. src_count e = Inr cnt \<and> cnt \<noteq> 0 \<and> list_all (\<lambda>ev. \<not> is_insert ev) pre
        \<and> r = after pre (copy_loop e name B (src_items e) [] 0 0 db'))"

text \<open>
  Book-keeping of the pool: the name a worker holds; every name is in \<open>collectionCh\<close>,
  held by a worker, or on a result in \<open>resultCh\<close>. A measure that every step of a worker
  still in its loop decreases. Once a worker has left its loop, \<open>collectionCh\<close> is empty.
\<close>

fun held :: "worker \<Rightarrow> string multiset" where
  "held (Holding c) = {#c#}"
| "held _ = {#}"

fun worker_weight :: "worker \<Rightarrow> nat" where
  "worker_weight Receiving = 1"
| "worker_weight (Holding c) = 2"
| "worker_weight Exited = 0"

definition accounted :: "pool \<Rightarrow> string multiset" where
  "accounted p =
     mset (map CollectionName (resultCh p)) + sum_list (map held (workers p))
       + mset (collectionCh p)"

definition pool_measure :: "pool \<Rightarrow> nat" where
  "pool_measure p = 3 * length (collectionCh p) + sum_list (map worker_weight (workers p))"

definition drained :: "pool \<Rightarrow> bool" where
  "drained p = (Exited \<notin> set (workers p) \<or> collectionCh p = [])"

section \<open>Concrete inputs\<close>

text \<open>
  A \<open>range\<close> order for maps whose keys are among \<open>ks\<close>: the keys are visited in the order
  of \<open>ks\<close>.
\<close>

definition range_in :: "string list \<Rightarrow> bsonM \<Rightarrow> bsonD" where
  "range_in ks m = List.map_filter (\<lambda>k. map_option (Pair k) (m k)) ks"

text \<open>An environment in which nothing fails and the source collection is empty.\<close>

definition quiet_env :: env where
  "quiet_env =
     \<lparr>src_connect_err = None, dst_connect_err = None, dst_list_err = None,
      src_index_list_err = None, src_index_items = [], src_index_cursor_err = None,
      range_order = range_in [], dst_drop_err = None, dst_create_err = None,
      src_count = Inr 0, src_find_err = None, src_items = [], src_cursor_err = None,
      dst_insert = (\<lambda>n batch. None)\<rparr>"

definition three_docs :: env where
  "three_docs =
     quiet_env\<lparr>src_count := Inr 3,
               src_items := [Inr [(''_id'', BInt32 1)], Inr [(''_id'', BInt32 2)],
                             Inr [(''_id'', BInt32 3)]]\<rparr>"

definition second_insert_fails :: env where
  "second_insert_fails =
     three_docs\<lparr>dst_insert := (\<lambda>n batch. if n = 1 then Some (''write error'', []) else None)\<rparr>"

definition index_read_fails :: env where
  "index_read_fails = three_docs\<lparr>src_index_list_err := Some ''not authorized''\<rparr>"

definition old_users :: database where
  "old_users = [''users'' \<mapsto> \<lparr>documents = [decodeM [(''_id'', BInt32 9)]], indexes = []\<rparr>]"

definition quiet_run :: run_env where
  "quiet_run = \<lparr>validate_err = None, get_connect_err = None, src_collection_names = Inr []\<rparr>"

definition source_has_users :: run_env where
  "source_has_users = quiet_run\<lparr>src_collection_names := Inr [''users'']\<rparr>"

definition no_collections_given :: TransferParams where
  "no_collections_given =
     \<lparr>SourceURI = ''mongodb://src'', DestinationURI = ''mongodb://dst'', SourceDB = ''a'',
      DestinationDB = ''b'', Collections = [], BatchSize = 2, OverwriteDestination = False\<rparr>"

definition users_and_orders :: TransferParams where
  "users_and_orders = no_collections_given\<lparr>Collections := [''users'', ''orders'']\<rparr>"

text \<open>
  Two workers: worker 0 receives \<open>users\<close>, worker 1 receives \<open>orders\<close> and sends its
  result first, then worker 0 sends its result, then both leave.
\<close>

definition interleaved :: "(nat \<times> env) list" where
  "interleaved =
     [(0, three_docs), (1, quiet_env), (1, quiet_env), (0, three_docs),
      (0, quiet_env), (1, quiet_env)]"

text \<open>
  Two compound indexes over the same fields in opposite order, and a TTL index whose
  \<open>expireAfterSeconds\<close> is a 64-bit integer.
\<close>

definition compound_ab :: bsonD where
  "compound_ab =
     [(''v'', BInt32 2),
      (''key'', BDoc [(''a'', BInt32 1), (''b'', BInt32 (- 1))]),
      (''name'', BString ''a_1_b_-1'')]"

definition compound_ba :: bsonD where
  "compound_ba =
     [(''v'', BInt32 2),
      (''key'', BDoc [(''b'', BInt32 (- 1)), (''a'', BInt32 1)]),
      (''name'', BString ''b_-1_a_1'')]"

definition ttl_int64 :: bsonD where
  "ttl_int64 =
     [(''v'', BInt32 2),
      (''key'', BDoc [(''createdAt'', BInt32 1)]),
      (''name'', BString ''createdAt_1''),
      (''expireAfterSeconds'', BInt64 3600)]"

definition with_indexes :: "(bsonM \<Rightarrow> bsonD) \<Rightarrow> bsonD list \<Rightarrow> env" where
  "with_indexes rng raws = quiet_env\<lparr>range_order := rng, src_index_items := map Inr raws\<rparr>"

section \<open>Evaluation\<close>

lemmas run_defs =
  transferCollection_def ListCollectionNames_def getCollectionIndexes_def drop_stage_def
  index_stage_def copy_stage_def InsertMany_def final_flush_def cursor_check_def
  write_documents_def the_collection_def after_def stop_def Let_def Drop_def CreateMany_def
  index_model_of_def

lemmas env_defs = quiet_env_def three_docs_def second_insert_fails_def index_read_fails_def
  old_users_def range_in_def

lemmas pool_defs = runTransfer_def GetCollections_def run_schedule_def start_pool_def
  worker_step_def all_exited_def TransferCollection_def

lemmas run_env_defs = quiet_run_def source_has_users_def no_collections_given_def
  users_and_orders_def interleaved_def

lemmas index_defs = compound_ab_def compound_ba_def ttl_int64_def with_indexes_def
  options_Index_def decodeM_def set_background_def

lemma after_simps [simp]:
  "calls (after tr r) = tr @ calls r"
  "ret_count (after tr r) = ret_count r"
  "ret_err (after tr r) = ret_err r"
  "dest (after tr r) = dest r"
  by (simp_all add: after_def)

lemma stop_simps [simp]:
  "calls (stop k err tr db) = tr" "ret_count (stop k err tr db) = k"
  "ret_err (stop k err tr db) = Some err" "dest (stop k err tr db) = db"
  by (simp_all add: stop_def)

lemma cursor_check_simps [simp]:
  "calls (cursor_check e t db) = []" "ret_count (cursor_check e t db) = t"
  "dest (cursor_check e t db) = db"
  by (simp_all add: cursor_check_def split: option.splits)

lemma after_after [simp]: "after a (after b r) = after (a @ b) r"
  by (simp add: after_def)

lemma after_stop [simp]: "after a (stop k err tr db) = stop k err (a @ tr) db"
  by (simp add: after_def stop_def)

section \<open>The calls of a transfer\<close>

lemma copy_loop_calls:
  "list_all is_insert (calls (copy_loop e name B items batch tot n db))"
  by (induction e name B items batch tot n db rule: copy_loop.induct)
     (auto simp: final_flush_def Let_def split: option.splits prod.splits)

lemma copy_stage_calls:
  "EvDrop \<notin> set (calls (copy_stage e name B db)) \<and> EvListIndexes \<notin> set (calls (copy_stage e name B db))"
  using copy_loop_calls[of e name B "src_items e" "[]" 0 0 db]
  by (auto simp: copy_stage_def list_all_iff split: sum.splits option.splits)

lemma index_stage_calls:
  "EvDrop \<notin> set (calls (index_stage e name B ixs db)) \<and> EvListIndexes \<notin> set (calls (index_stage e name B ixs db))"
  using copy_stage_calls
  by (auto simp: index_stage_def split: sum.splits option.splits)

lemma loop_or_not_stop [simp]:
  "list_all (\<lambda>ev. \<not> is_insert ev) tr \<Longrightarrow> loop_or_not e name B (stop 0 err tr db)"
  by (simp add: loop_or_not_def)

lemma loop_or_not_after:
  assumes "list_all (\<lambda>ev. \<not> is_insert ev) tr" and "loop_or_not e name B r"
  shows "loop_or_not e name B (after tr r)"
  using assms(2) unfolding loop_or_not_def
proof
  assume "list_all (\<lambda>ev. \<not> is_insert ev) (calls r) \<and> ret_count r = 0
      \<and> (ret_err r = None \<longrightarrow> src_count e = Inr 0)"
  then show "(list_all (\<lambda>ev. \<not> is_insert ev) (calls (after tr r)) \<and> ret_count (after tr r) = 0
        \<and> (ret_err (after tr r) = None \<longrightarrow> src_count e = Inr 0))
   \<or> (\<exists>pre db' cnt. src_count e = Inr cnt \<and> cnt \<noteq> 0 \<and> list_all (\<lambda>ev. \<not> is_insert ev) pre
        \<and> after tr r = after pre (copy_loop e name B (src_items e) [] 0 0 db'))"
    using assms(1) by simp
next
  assume "\<exists>pre db' cnt. src_count e = Inr cnt \<and> cnt \<noteq> 0 \<and> list_all (\<lambda>ev. \<not> is_insert ev) pre
        \<and> r = after pre (copy_loop e name B (src_items e) [] 0 0 db')"
  then obtain pre db' cnt where h: "src_count e = Inr cnt" "cnt \<noteq> 0"
      "list_all (\<lambda>ev. \<not> is_insert ev) pre"
      "r = after pre (copy_loop e name B (src_items e) [] 0 0 db')" by blast
  have "after tr r = after (tr @ pre) (copy_loop e name B (src_items e) [] 0 0 db')"
    using h(4) by simp
  moreover have "list_all (\<lambda>ev. \<not> is_insert ev) (tr @ pre)" using assms(1) h(3) by simp
  ultimately show "(list_all (\<lambda>ev. \<not> is_insert ev) (calls (after tr r)) \<and> ret_count (after tr r) = 0
        \<and> (ret_err (after tr r) = None \<longrightarrow> src_count e = Inr 0))
   \<or> (\<exists>pre db' cnt. src_count e = Inr cnt \<and> cnt \<noteq> 0 \<and> list_all (\<lambda>ev. \<not> is_insert ev) pre
        \<and> after tr r = after pre (copy_loop e name B (src_items e) [] 0 0 db'))"
    using h(1,2) by blast
qed

lemma copy_stage_shape: "loop_or_not e name B (copy_stage e name B d)"
proof (cases "src_count e")
  case (Inl m)
  then show ?thesis by (simp add: copy_stage_def)
next
  case (Inr cnt)
  show ?thesis
  proof (cases "cnt = 0")
    case True
    then show ?thesis using Inr by (simp add: copy_stage_def loop_or_not_def)
  next
    case False
    show ?thesis
    proof (cases "src_find_err e")
      case None
      have "copy_stage e name B d =
              after [EvCountDocuments, EvFind] (copy_loop e name B (src_items e) [] 0 0 d)"
        using Inr False None by (simp add: copy_stage_def)
      moreover have "list_all (\<lambda>ev. \<not> is_insert ev) [EvCountDocuments, EvFind]" by simp
      ultimately show ?thesis unfolding loop_or_not_def using Inr False by blast
    next
      case (Some m)
      then show ?thesis using Inr False by (simp add: copy_stage_def)
    qed
  qed
qed

lemma index_stage_shape: "loop_or_not e name B (index_stage e name B ixs d)"
  by (simp add: index_stage_def copy_stage_shape loop_or_not_after split: sum.split)

lemma drop_stage_shape: "loop_or_not e name B (drop_stage e name B ex ow ixs d)"
  by (simp add: drop_stage_def index_stage_shape loop_or_not_after split: sum.split)

lemma transfer_shape:
  "loop_or_not e name (if B0 \<le> 0 then 100 else B0) (transferCollection e db name B0 ow)"
  by (simp add: transferCollection_def Let_def drop_stage_shape loop_or_not_after split: sum.split)

lemma filter_inserts:
  "list_all (\<lambda>ev. \<not> is_insert ev) pre \<Longrightarrow> list_all is_insert xs \<Longrightarrow> filter is_insert (pre @ xs) = xs"
  by (induction pre) (auto simp: list_all_iff)

lemma filter_no_inserts:
  "list_all (\<lambda>ev. \<not> is_insert ev) xs \<Longrightarrow> filter is_insert xs = []"
  by (induction xs) auto

lemma copy_loop_no_conflict:
  "ret_err (copy_loop e name B items batch tot n db) \<noteq> Some (ErrDestExists c)"
  by (induction e name B items batch tot n db rule: copy_loop.induct)
     (auto simp: final_flush_def cursor_check_def Let_def split: option.splits prod.splits)

lemma drop_stage_no_conflict:
  "ret_err (drop_stage e name B ex ow ixs db) \<noteq> Some (ErrDestExists c)"
  by (auto simp: drop_stage_def index_stage_def copy_stage_def copy_loop_no_conflict
           split: sum.splits option.splits)

lemma drop_iff:
  "EvDrop \<in> set (calls (transferCollection e db name B0 ow)) \<longleftrightarrow>
     ow \<and> db name \<noteq> None \<and> dst_list_err e = None \<and> \<not> isl (getCollectionIndexes e)"
  using index_stage_calls[of e name "if B0 \<le> 0 then 100 else B0" _ _]
  by (auto simp: transferCollection_def ListCollectionNames_def drop_stage_def Drop_def Let_def
           split: sum.splits option.splits if_splits)

lemma conflict_iff:
  "ret_err (transferCollection e db name B0 ow) = Some (ErrDestExists c) \<longleftrightarrow>
     c = name \<and> \<not> ow \<and> db name \<noteq> None \<and> dst_list_err e = None"
  using drop_stage_no_conflict[of e name "if B0 \<le> 0 then 100 else B0" _ ow _ db c]
  by (auto simp: transferCollection_def ListCollectionNames_def Let_def
           split: sum.splits option.splits if_splits)

section \<open>Index replication\<close>

lemma read_compound_ab:
  "getCollectionIndexes (with_indexes rng [compound_ab])
     = Inr [\<lparr>Keys = rng [''a'' \<mapsto> BInt32 1, ''b'' \<mapsto> BInt32 (- 1)], Options = Some options_Index\<rparr>]"
  by (simp add: getCollectionIndexes_def index_model_of_def index_defs quiet_env_def)

lemma read_compound_ba:
  "getCollectionIndexes (with_indexes rng [compound_ba])
     = Inr [\<lparr>Keys = rng [''a'' \<mapsto> BInt32 1, ''b'' \<mapsto> BInt32 (- 1)], Options = Some options_Index\<rparr>]"
proof -
  have "[''b'' \<mapsto> BInt32 (- 1), ''a'' \<mapsto> BInt32 1] = [''a'' \<mapsto> BInt32 1, ''b'' \<mapsto> BInt32 (- 1)]"
    by (rule ext) simp
  moreover have "getCollectionIndexes (with_indexes rng [compound_ba])
     = Inr [\<lparr>Keys = rng [''b'' \<mapsto> BInt32 (- 1), ''a'' \<mapsto> BInt32 1], Options = Some options_Index\<rparr>]"
    by (simp add: getCollectionIndexes_def index_model_of_def index_defs quiet_env_def)
  ultimately show ?thesis by (simp only:)
qed

text \<open>
  A TTL index whose \<open>expireAfterSeconds\<close> is not a 32-bit integer is read without its
  expiry: the type assertion \<open>.(int32)\<close> fails and the option stays unset.
\<close>

lemma ttl_int64_dropped:
  "getCollectionIndexes (with_indexes rng [ttl_int64])
     = Inr [\<lparr>Keys = rng [''createdAt'' \<mapsto> BInt32 1], Options = Some options_Index\<rparr>]"
  by (simp add: getCollectionIndexes_def index_model_of_def index_defs quiet_env_def)

text \<open>
  Claim C1 (index fidelity: the index read keeps the source's key order and exactly the
  attributes present, and creation reproduces it). The code does not keep the key order
  of a compound index. It decodes the index description into \<open>bson.M\<close>, a Go map, and
  rebuilds the ordered key document by ranging over that map. For the source index
  \<open>{a: 1, b: -1}\<close> and a \<open>range\<close> that visits \<open>b\<close> first, the index read is \<open>{b: -1, a: 1}\<close>,
  the transfer succeeds, and that is the index the destination gets. Whatever the
  \<open>range\<close> order is: \<open>{a: 1, b: -1}\<close> and \<open>{b: -1, a: 1}\<close> decode to the same map, so
  at least one of the two is read with its keys in the wrong order.
\<close>

theorem key_order_lost:
  "getCollectionIndexes (with_indexes (range_in [''b'', ''a'']) [compound_ab])
     = Inr [\<lparr>Keys = [(''b'', BInt32 (- 1)), (''a'', BInt32 1)], Options = Some options_Index\<rparr>]
   \<and> ret_err (transferCollection (with_indexes (range_in [''b'', ''a'']) [compound_ab])
                Map.empty ''c'' 100 False) = None
   \<and> map_option indexes
        (dest (transferCollection (with_indexes (range_in [''b'', ''a'']) [compound_ab])
                 Map.empty ''c'' 100 False) ''c'')
       = Some [\<lparr>Keys = [(''b'', BInt32 (- 1)), (''a'', BInt32 1)],
                Options = Some (options_Index\<lparr>Background := Some True\<rparr>)\<rparr>]
   \<and> \<not> (getCollectionIndexes (with_indexes rng [compound_ab])
            = Inr [\<lparr>Keys = [(''a'', BInt32 1), (''b'', BInt32 (- 1))],
                    Options = Some options_Index\<rparr>]
          \<and> getCollectionIndexes (with_indexes rng [compound_ba])
            = Inr [\<lparr>Keys = [(''b'', BInt32 (- 1)), (''a'', BInt32 1)],
                    Options = Some options_Index\<rparr>])"
proof -
  have a: "getCollectionIndexes (with_indexes (range_in [''b'', ''a'']) [compound_ab])
     = Inr [\<lparr>Keys = [(''b'', BInt32 (- 1)), (''a'', BInt32 1)], Options = Some options_Index\<rparr>]"
    by (simp add: read_compound_ab range_in_def List.map_filter_simps)
  have b: "ret_err (transferCollection (with_indexes (range_in [''b'', ''a'']) [compound_ab])
                Map.empty ''c'' 100 False) = None"
    by (simp add: run_defs env_defs index_defs List.map_filter_simps)
  have c: "map_option indexes
        (dest (transferCollection (with_indexes (range_in [''b'', ''a'']) [compound_ab])
                 Map.empty ''c'' 100 False) ''c'')
       = Some [\<lparr>Keys = [(''b'', BInt32 (- 1)), (''a'', BInt32 1)],
                Options = Some (options_Index\<lparr>Background := Some True\<rparr>)\<rparr>]"
    by (simp add: run_defs env_defs index_defs List.map_filter_simps)
  have d: "\<not> (getCollectionIndexes (with_indexes rng [compound_ab])
            = Inr [\<lparr>Keys = [(''a'', BInt32 1), (''b'', BInt32 (- 1))],
                    Options = Some options_Index\<rparr>]
          \<and> getCollectionIndexes (with_indexes rng [compound_ba])
            = Inr [\<lparr>Keys = [(''b'', BInt32 (- 1)), (''a'', BInt32 1)],
                    Options = Some options_Index\<rparr>])"
    unfolding read_compound_ab read_compound_ba by auto
  show ?thesis using a b c d by blast
qed

section \<open>The batched copy\<close>

lemma ceil_step: "0 < B \<Longrightarrow> (B + x + B - 1) div B = 1 + (x + B - 1) div (B::int)"
proof -
  assume "0 < B"
  then have "((x + B - 1) + B) div B = (x + B - 1) div B + 1"
    using div_add_self2[of B "x + B - 1"] by simp
  moreover have "B + x + B - 1 = (x + B - 1) + B" by simp
  ultimately show ?thesis by (simp only: add.commute)
qed

lemma ceil_one: "0 < l \<Longrightarrow> l < B \<Longrightarrow> (l + B - 1) div B = (1::int)"
proof -
  assume a: "0 < l" "l < B"
  then have "((l - 1) + B) div B = (l - 1) div B + 1"
    using div_add_self2[of B "l - 1"] by simp
  moreover have "(l - 1) div B = 0" using a by (simp add: div_pos_pos_trivial)
  moreover have "l + B - 1 = (l - 1) + B" by simp
  ultimately show ?thesis by (simp only: add_0)
qed

lemma ceil_zero: "0 < B \<Longrightarrow> (B - 1) div B = (0::int)"
  by (simp add: div_pos_pos_trivial)

lemma ceil_int: "0 < B \<Longrightarrow> (D + B - 1) div B = - ((- D) div (B::int))"
proof -
  assume pos: "0 < B"
  have split: "D + B - 1 = (D mod B + B - 1) + (D div B) * B"
    by (simp add: algebra_simps)
  have "((D mod B + B - 1) + (D div B) * B) div B = D div B + (D mod B + B - 1) div B"
    using pos div_mult_self1[of B "D mod B + B - 1" "D div B"] by simp
  then have l: "(D + B - 1) div B = D div B + (D mod B + B - 1) div B"
    by (simp only: split[symmetric])
  show ?thesis
  proof (cases "D mod B = 0")
    case True
    then have "(D mod B + B - 1) div B = 0" using pos by (simp add: div_pos_pos_trivial)
    moreover have "(- D) div B = - (D div B)" using True pos by (simp add: zdiv_zminus1_eq_if)
    ultimately show ?thesis using l by simp
  next
    case False
    have "0 \<le> D mod B" "D mod B < B" using pos by simp_all
    then have "0 < D mod B" "D mod B < B" using False by simp_all
    then have "(D mod B + B - 1) div B = 1" by (rule ceil_one)
    moreover have "(- D) div B = - (D div B) - 1" using False pos by (simp add: zdiv_zminus1_eq_if)
    ultimately show ?thesis using l by simp
  qed
qed

lemma ceil_real: "0 < B \<Longrightarrow> (D + B - 1) div B = \<lceil>real_of_int D / real_of_int B\<rceil>"
  by (simp add: ceil_int ceiling_divide_eq_div)

lemma final_flush_success:
  assumes "0 < B" "int (length batch) < B"
      and "ret_err (final_flush e name batch tot n db) = None"
  shows "ret_count (final_flush e name batch tot n db) = tot + int (length batch)
       \<and> int (length (calls (final_flush e name batch tot n db))) = (int (length batch) + B - 1) div B"
proof (cases "batch = []")
  case True
  then show ?thesis using assms by (simp add: final_flush_def ceil_zero)
next
  case False
  then have "0 < int (length batch)" by simp
  then have "(int (length batch) + B - 1) div B = 1" using assms(2) by (rule ceil_one)
  then show ?thesis using False assms(3)
    by (auto simp: final_flush_def split: prod.splits option.splits)
qed

lemma copy_loop_success:
  "0 < B \<Longrightarrow> int (length batch) < B \<Longrightarrow> ret_err (copy_loop e name B items batch tot n db) = None \<Longrightarrow>
     ret_count (copy_loop e name B items batch tot n db) = tot + int (length batch) + int (length items)
   \<and> int (length (calls (copy_loop e name B items batch tot n db)))
        = (int (length batch) + int (length items) + B - 1) div B"
proof (induction e name B items batch tot n db rule: copy_loop.induct)
  case (1 e name batchSize batch totalTransferred n db)
  then show ?case using final_flush_success[of batchSize batch e name totalTransferred n db] by simp
next
  case (2 e name batchSize m rest batch totalTransferred n db)
  then show ?case by simp
next
  case (3 e name batchSize raw rest batch totalTransferred n db)
  show ?case
  proof (cases "int (length (batch @ [decodeM raw])) \<ge> batchSize")
    case True
    then have len: "int (length batch) + 1 = batchSize" using "3.prems"(2) by simp
    obtain res db' where ins: "InsertMany e n db name (batch @ [decodeM raw]) = (res, db')"
      by (cases "InsertMany e n db name (batch @ [decodeM raw])")
    have res: "res = None" using "3.prems"(3) True ins by (cases res) (simp_all add: Let_def)
    let ?rec = "copy_loop e name batchSize rest [] (totalTransferred + int (length (batch @ [decodeM raw]))) (Suc n) db'"
    have eq: "copy_loop e name batchSize (Inr raw # rest) batch totalTransferred n db
              = after [EvInsertMany (length (batch @ [decodeM raw])) True] ?rec"
      using True ins res by (simp add: Let_def)
    have "ret_err ?rec = None" using "3.prems"(3) eq by simp
    then have ih: "ret_count ?rec = (totalTransferred + int (length (batch @ [decodeM raw]))) + int (length ([]::bsonM list)) + int (length rest)
        \<and> int (length (calls ?rec)) = (int (length ([]::bsonM list)) + int (length rest) + batchSize - 1) div batchSize"
      using "3.IH"(1)[OF refl True ins[symmetric] res "3.prems"(1)] "3.prems"(1) by simp
    have "int (length batch) + int (length (Inr raw # rest)) + batchSize - 1
          = batchSize + int (length rest) + batchSize - 1"
      using len by simp
    then have "(int (length batch) + int (length (Inr raw # rest)) + batchSize - 1) div batchSize
          = (batchSize + int (length rest) + batchSize - 1) div batchSize"
      by (simp only:)
    also have "\<dots> = 1 + (int (length rest) + batchSize - 1) div batchSize"
      using "3.prems"(1) by (rule ceil_step)
    finally show ?thesis using ih eq by simp
  next
    case False
    then have eq: "copy_loop e name batchSize (Inr raw # rest) batch totalTransferred n db
       = copy_loop e name batchSize rest (batch @ [decodeM raw]) totalTransferred n db"
      by (simp add: Let_def)
    have "int (length (batch @ [decodeM raw])) < batchSize" using False by simp
    then show ?thesis
      using "3.IH"(2)[OF refl False "3.prems"(1)] "3.prems"(3) eq by (simp add: algebra_simps)
  qed
qed

lemma copy_loop_small:
  "int (length batch) + int (length items) < B \<Longrightarrow> 0 < length batch + length items \<Longrightarrow>
   ret_err (copy_loop e name B items batch tot n db) = None \<Longrightarrow>
   calls (copy_loop e name B items batch tot n db) = [EvInsertMany (length batch + length items) True]"
proof (induction e name B items batch tot n db rule: copy_loop.induct)
  case (1 e name batchSize batch totalTransferred n db)
  then show ?case by (auto simp: final_flush_def split: prod.splits option.splits)
next
  case (2 e name batchSize m rest batch totalTransferred n db)
  then show ?case by simp
next
  case (3 e name batchSize raw rest batch totalTransferred n db)
  have nt: "\<not> int (length (batch @ [decodeM raw])) \<ge> batchSize" using "3.prems"(1) by simp
  then have eq: "copy_loop e name batchSize (Inr raw # rest) batch totalTransferred n db
       = copy_loop e name batchSize rest (batch @ [decodeM raw]) totalTransferred n db"
    by (simp add: Let_def)
  show ?case using "3.IH"(2)[OF refl nt] "3.prems" unfolding eq by simp
qed



text \<open>
  Claim C2 (a collection whose transfer fails after the index read has the number of
  documents transferred before the failure in its outcome, and that number counts in
  the run's total; failures before that record zero). \<open>transferCollection\<close> returns the
  partial count with the error, but \<open>TransferCollection\<close> returns on the error before
  it stores the count: with three documents, batch size 2 and a failing second insert,
  two documents are in the destination, \<open>transferCollection\<close> returns 2, and the outcome
  records 0.
\<close>

theorem partial_count_dropped:
  "ret_count (transferCollection second_insert_fails Map.empty ''users'' 2 False) = 2
   \<and> ret_err (transferCollection second_insert_fails Map.empty ''users'' 2 False)
       = Some (ErrInsertFinalBatch ''write error'')
   \<and> map_option documents
        (dest (transferCollection second_insert_fails Map.empty ''users'' 2 False) ''users'')
       = Some [decodeM [(''_id'', BInt32 1)], decodeM [(''_id'', BInt32 2)]]
   \<and> t_result (TransferCollection second_insert_fails no_collections_given Map.empty ''users'')
       = \<lparr>CollectionName = ''users'', DocumentsCount = 0, Success = False,
          ErrorMessage =
            ''Failed to transfer collection: failed to insert final batch: write error''\<rparr>"
  by (simp add: run_defs env_defs pool_defs run_env_defs)



text \<open>
  When no call fails the transfer returns no error; with an empty source this needs
  only the calls before the count to succeed.
\<close>

lemma copy_loop_ok:
  "list_all (\<lambda>it. \<not> isl it) items \<Longrightarrow> (\<forall>n b. dst_insert e n b = None) \<Longrightarrow>
   src_cursor_err e = None \<Longrightarrow>
   ret_err (copy_loop e name B items batch tot n db) = None"
  by (induction e name B items batch tot n db rule: copy_loop.induct)
     (simp_all add: final_flush_def cursor_check_def InsertMany_def Let_def)

lemma index_stage_empty_ok:
  assumes "dst_create_err e = None" and "src_count e = Inr 0"
  shows "ret_err (index_stage e name B ixs db) = None
       \<and> ret_count (index_stage e name B ixs db) = 0
       \<and> filter is_insert (calls (index_stage e name B ixs db)) = []"
  using assms by (simp add: index_stage_def CreateMany_def copy_stage_def)

lemma index_stage_ok:
  assumes "dst_create_err e = None" and "src_count e = Inr cnt" and "src_find_err e = None"
      and "list_all (\<lambda>it. \<not> isl it) (src_items e)" and "\<forall>n b. dst_insert e n b = None"
      and "src_cursor_err e = None"
  shows "ret_err (index_stage e name B ixs db) = None"
  using assms by (simp add: index_stage_def CreateMany_def copy_stage_def copy_loop_ok)

lemma transfer_empty_ok:
  assumes "dst_list_err e = None" and "db name = None \<or> ow"
      and "\<not> isl (getCollectionIndexes e)" and "dst_drop_err e = None"
      and "dst_create_err e = None" and "src_count e = Inr 0"
  shows "ret_err (transferCollection e db name B0 ow) = None
       \<and> ret_count (transferCollection e db name B0 ow) = 0
       \<and> filter is_insert (calls (transferCollection e db name B0 ow)) = []"
proof -
  obtain ixs where ixs: "getCollectionIndexes e = Inr ixs"
    using assms(3) by (cases "getCollectionIndexes e") auto
  show ?thesis
    using assms(1,2,4) ixs index_stage_empty_ok[OF assms(5,6)]
    by (auto simp: transferCollection_def ListCollectionNames_def drop_stage_def Drop_def Let_def)
qed

lemma transfer_ok:
  assumes "dst_list_err e = None" and "db name = None \<or> ow"
      and "\<not> isl (getCollectionIndexes e)" and "dst_drop_err e = None"
      and "dst_create_err e = None" and "src_count e = Inr cnt" and "src_find_err e = None"
      and "list_all (\<lambda>it. \<not> isl it) (src_items e)" and "\<forall>n b. dst_insert e n b = None"
      and "src_cursor_err e = None"
  shows "ret_err (transferCollection e db name B0 ow) = None"
proof -
  obtain ixs where ixs: "getCollectionIndexes e = Inr ixs"
    using assms(3) by (cases "getCollectionIndexes e") auto
  show ?thesis
    using assms(1,2,4) ixs index_stage_ok[OF assms(5-10)]
    by (auto simp: transferCollection_def ListCollectionNames_def drop_stage_def Drop_def Let_def)
qed

lemma successful_copy_arithmetic:
  assumes "src_count e = Inr (int (length (src_items e)))"
      and "ret_err (transferCollection e db name B0 ow) = None"
  shows "ret_count (transferCollection e db name B0 ow) = int (length (src_items e))
       \<and> int (length (filter is_insert (calls (transferCollection e db name B0 ow))))
           = \<lceil>real (length (src_items e)) / real_of_int (if B0 \<le> 0 then 100 else B0)\<rceil>
       \<and> (length (src_items e) = 0 \<longrightarrow>
            filter is_insert (calls (transferCollection e db name B0 ow)) = [])
       \<and> (0 < length (src_items e) \<and> int (length (src_items e)) < (if B0 \<le> 0 then 100 else B0) \<longrightarrow>
            filter is_insert (calls (transferCollection e db name B0 ow))
              = [EvInsertMany (length (src_items e)) True])"
proof -
  let ?B = "if B0 \<le> 0 then 100 else B0"
  let ?r = "transferCollection e db name B0 ow"
  let ?D = "length (src_items e)"
  have pos: "0 < ?B" by simp
  consider (none) "list_all (\<lambda>ev. \<not> is_insert ev) (calls ?r)" "ret_count ?r = 0" "src_count e = Inr 0"
    | (loop) pre db' cnt where "src_count e = Inr cnt" "cnt \<noteq> 0" "list_all (\<lambda>ev. \<not> is_insert ev) pre"
        "?r = after pre (copy_loop e name ?B (src_items e) [] 0 0 db')"
    using transfer_shape[of e name B0 db ow] assms(2) unfolding loop_or_not_def by blast
  then show ?thesis
  proof cases
    case none
    then have "?D = 0" using assms(1) by simp
    then show ?thesis using none filter_no_inserts[OF none(1)] by simp
  next
    case loop
    let ?l = "copy_loop e name ?B (src_items e) [] 0 0 db'"
    have D: "0 < ?D" using loop(1,2) assms(1) by auto
    have ok: "ret_err ?l = None" using assms(2) unfolding loop(4) by simp
    have s: "ret_count ?l = int ?D" "int (length (calls ?l)) = (int ?D + ?B - 1) div ?B"
      using copy_loop_success[OF pos _ ok] pos by (simp_all del: if_split split del: if_split)
    have f: "filter is_insert (calls ?r) = calls ?l"
      unfolding loop(4) using filter_inserts[OF loop(3) copy_loop_calls] by simp
    have c: "(int ?D + ?B - 1) div ?B = \<lceil>real ?D / real_of_int ?B\<rceil>"
      using ceil_real[OF pos, of "int ?D"] by simp
    have small: "calls ?l = [EvInsertMany ?D True]" if "int ?D < ?B"
      using copy_loop_small[of "[]" "src_items e" ?B e name 0 0 db'] that D ok by simp
    have "ret_count ?r = int ?D" unfolding loop(4) using s(1) by simp
    moreover have "int (length (filter is_insert (calls ?r))) = \<lceil>real ?D / real_of_int ?B\<rceil>"
      using f s(2) c by simp
    moreover have "?D = 0 \<longrightarrow> filter is_insert (calls ?r) = []" using D by simp
    moreover have "0 < ?D \<and> int ?D < ?B \<longrightarrow> filter is_insert (calls ?r) = [EvInsertMany ?D True]"
      using f small by simp
    ultimately show ?thesis by blast
  qed
qed

text \<open>
  Claim C6 (batch arithmetic). Let the source hold \<open>D\<close> documents: \<open>CountDocuments\<close> answers
  \<open>D\<close> and the cursor yields \<open>D\<close> documents. Let \<open>B\<close> be the batch size, or 100 when the
  batch size given is not positive.
  \<^item> A transfer that returns no error returns \<open>D\<close> and issues \<open>ceil (D / B)\<close> inserts;
    none when \<open>D = 0\<close>; one, of all \<open>D\<close> documents, when \<open>0 < D < B\<close>.
  \<^item> When \<open>D = 0\<close> and the calls before the count succeed (existence check, no conflict,
    index read, drop, index creation), the transfer returns success with count 0 and
    issues no insert.
  \<^item> When no call fails at all, the transfer returns success with count \<open>D\<close> after
    \<open>ceil (D / B)\<close> inserts.
\<close>

theorem batch_arithmetic:
  assumes "src_count e = Inr (int (length (src_items e)))"
  shows "(ret_err (transferCollection e db name B0 ow) = None \<longrightarrow>
            ret_count (transferCollection e db name B0 ow) = int (length (src_items e))
            \<and> int (length (filter is_insert (calls (transferCollection e db name B0 ow))))
                = \<lceil>real (length (src_items e)) / real_of_int (if B0 \<le> 0 then 100 else B0)\<rceil>
            \<and> (length (src_items e) = 0 \<longrightarrow>
                 filter is_insert (calls (transferCollection e db name B0 ow)) = [])
            \<and> (0 < length (src_items e)
                  \<and> int (length (src_items e)) < (if B0 \<le> 0 then 100 else B0) \<longrightarrow>
                 filter is_insert (calls (transferCollection e db name B0 ow))
                   = [EvInsertMany (length (src_items e)) True]))
       \<and> (dst_list_err e = None \<and> (db name = None \<or> ow) \<and> \<not> isl (getCollectionIndexes e)
            \<and> dst_drop_err e = None \<and> dst_create_err e = None
            \<and> length (src_items e) = 0 \<longrightarrow>
            ret_err (transferCollection e db name B0 ow) = None
            \<and> ret_count (transferCollection e db name B0 ow) = 0
            \<and> filter is_insert (calls (transferCollection e db name B0 ow)) = [])
       \<and> (dst_list_err e = None \<and> (db name = None \<or> ow) \<and> \<not> isl (getCollectionIndexes e)
            \<and> dst_drop_err e = None \<and> dst_create_err e = None \<and> src_find_err e = None
            \<and> list_all (\<lambda>it. \<not> isl it) (src_items e) \<and> (\<forall>n b. dst_insert e n b = None)
            \<and> src_cursor_err e = None \<longrightarrow>
            ret_err (transferCollection e db name B0 ow) = None
            \<and> ret_count (transferCollection e db name B0 ow) = int (length (src_items e))
            \<and> int (length (filter is_insert (calls (transferCollection e db name B0 ow))))
                = \<lceil>real (length (src_items e)) / real_of_int (if B0 \<le> 0 then 100 else B0)\<rceil>)"
  (is "?returned \<and> ?empty \<and> ?quiet")
proof -
  let ?r = "transferCollection e db name B0 ow"
  have first: "ret_count ?r = int (length (src_items e))
       \<and> int (length (filter is_insert (calls ?r)))
           = \<lceil>real (length (src_items e)) / real_of_int (if B0 \<le> 0 then 100 else B0)\<rceil>
       \<and> (length (src_items e) = 0 \<longrightarrow> filter is_insert (calls ?r) = [])
       \<and> (0 < length (src_items e) \<and> int (length (src_items e)) < (if B0 \<le> 0 then 100 else B0) \<longrightarrow>
            filter is_insert (calls ?r) = [EvInsertMany (length (src_items e)) True])"
    if "ret_err ?r = None"
    using successful_copy_arithmetic[OF assms that] .
  have second: "ret_err ?r = None \<and> ret_count ?r = 0 \<and> filter is_insert (calls ?r) = []"
    if "dst_list_err e = None" "db name = None \<or> ow" "\<not> isl (getCollectionIndexes e)"
       "dst_drop_err e = None" "dst_create_err e = None" "length (src_items e) = 0"
  proof -
    have "src_count e = Inr 0" using assms that(6) by simp
    then show ?thesis
      using transfer_empty_ok[where e = e and db = db and name = name and ow = ow
              and ?B0.0 = B0] that(1-5)
      by blast
  qed
  have third: "ret_err ?r = None" 
    if "dst_list_err e = None" "db name = None \<or> ow" "\<not> isl (getCollectionIndexes e)"
       "dst_drop_err e = None" "dst_create_err e = None" "src_find_err e = None"
       "list_all (\<lambda>it. \<not> isl it) (src_items e)" "\<forall>n b. dst_insert e n b = None"
       "src_cursor_err e = None"
    using transfer_ok[where e = e and db = db and name = name and ow = ow and ?B0.0 = B0
            and cnt = "int (length (src_items e))"] that assms
    by blast
  have r: ?returned using first by (intro impI)
  have m: ?empty using second by (intro impI) (elim conjE)
  have q: ?quiet
  proof (intro impI, elim conjE)
    assume h: "dst_list_err e = None" "db name = None \<or> ow" "\<not> isl (getCollectionIndexes e)"
       "dst_drop_err e = None" "dst_create_err e = None" "src_find_err e = None"
       "list_all (\<lambda>it. \<not> isl it) (src_items e)" "\<forall>n b. dst_insert e n b = None"
       "src_cursor_err e = None"
    have ok: "ret_err ?r = None" using h by (rule third)
    then show "ret_err ?r = None \<and> ret_count ?r = int (length (src_items e))
       \<and> int (length (filter is_insert (calls ?r)))
           = \<lceil>real (length (src_items e)) / real_of_int (if B0 \<le> 0 then 100 else B0)\<rceil>"
      using first[OF ok] by (intro conjI) (rule ok, simp_all only:)
  qed
  show ?thesis using r m q by (intro conjI)
qed

theorem batch_arithmetic_witness:
  "src_count three_docs = Inr (int (length (src_items three_docs)))
   \<and> ret_err (transferCollection three_docs Map.empty ''users'' 2 False) = None
   \<and> ret_count (transferCollection three_docs Map.empty ''users'' 2 False) = 3
   \<and> filter is_insert (calls (transferCollection three_docs Map.empty ''users'' 2 False))
       = [EvInsertMany 2 True, EvInsertMany 1 True]
   \<and> \<lceil>real (length (src_items three_docs)) / real_of_int 2\<rceil> = 2
   \<and> ret_err (transferCollection three_docs Map.empty ''users'' 0 False) = None
   \<and> filter is_insert (calls (transferCollection three_docs Map.empty ''users'' 0 False))
       = [EvInsertMany 3 True]
   \<and> src_count quiet_env = Inr (int (length (src_items quiet_env)))
   \<and> length (src_items quiet_env) = 0
   \<and> ret_err (transferCollection quiet_env Map.empty ''orders'' 2 False) = None
   \<and> ret_count (transferCollection quiet_env Map.empty ''orders'' 2 False) = 0
   \<and> filter is_insert (calls (transferCollection quiet_env Map.empty ''orders'' 2 False)) = []"
proof -
  have h1: "src_count three_docs = Inr (int (length (src_items three_docs)))"
    by (simp add: env_defs)
  have q1: "src_count quiet_env = Inr (int (length (src_items quiet_env)))"
    by (simp add: env_defs)
  have pre: "dst_list_err three_docs = None" "(Map.empty :: database) ''users'' = None \<or> False"
    "\<not> isl (getCollectionIndexes three_docs)" "dst_drop_err three_docs = None"
    "dst_create_err three_docs = None" "src_find_err three_docs = None"
    "list_all (\<lambda>it. \<not> isl it) (src_items three_docs)"
    "\<forall>n b. dst_insert three_docs n b = None" "src_cursor_err three_docs = None"
    by (simp_all add: env_defs getCollectionIndexes_def)
  have qpre: "dst_list_err quiet_env = None" "(Map.empty :: database) ''orders'' = None \<or> False"
    "\<not> isl (getCollectionIndexes quiet_env)" "dst_drop_err quiet_env = None"
    "dst_create_err quiet_env = None" "length (src_items quiet_env) = 0"
    by (simp_all add: env_defs getCollectionIndexes_def)
  have c: "filter is_insert (calls (transferCollection three_docs Map.empty ''users'' 2 False))
       = [EvInsertMany 2 True, EvInsertMany 1 True]"
    by (simp add: run_defs env_defs)
  have l: "length (src_items three_docs) = 3" by (simp add: env_defs)
  have two: "ret_err (transferCollection three_docs Map.empty ''users'' 2 False) = None
     \<and> ret_count (transferCollection three_docs Map.empty ''users'' 2 False) = 3"
    using batch_arithmetic[OF h1, where db = Map.empty and name = "''users''" and ?B0.0 = 2
            and ow = False] pre l
    by simp
  have zero: "ret_err (transferCollection three_docs Map.empty ''users'' 0 False) = None
     \<and> filter is_insert (calls (transferCollection three_docs Map.empty ''users'' 0 False))
         = [EvInsertMany 3 True]"
    using batch_arithmetic[OF h1, where db = Map.empty and name = "''users''" and ?B0.0 = 0
            and ow = False] pre l
    by simp
  have empty: "ret_err (transferCollection quiet_env Map.empty ''orders'' 2 False) = None
     \<and> ret_count (transferCollection quiet_env Map.empty ''orders'' 2 False) = 0
     \<and> filter is_insert (calls (transferCollection quiet_env Map.empty ''orders'' 2 False)) = []"
    using batch_arithmetic[OF q1, where db = Map.empty and name = "''orders''" and ?B0.0 = 2
            and ow = False] qpre
    by blast
  show ?thesis using h1 q1 qpre(6) c l two zero empty by simp
qed

section \<open>The orchestration of one collection\<close>

text \<open>
  Claim C4 (conflict atomicity). When the destination has a collection of the name and
  overwrite is off, the transfer leaves the destination as it was, makes no call that
  changes it, records zero documents and no success, and returns an error; when the
  connections and the existence check themselves succeed, the existence check is the
  only call made and the error is the "destination exists" error.
\<close>

theorem conflict_atomicity:
  assumes "db name \<noteq> None" and "\<not> OverwriteDestination params"
  shows "t_dest (TransferCollection e params db name) = db
       \<and> list_all (\<lambda>ev. \<not> mutation ev) (t_calls (TransferCollection e params db name))
       \<and> DocumentsCount (t_result (TransferCollection e params db name)) = 0
       \<and> \<not> Success (t_result (TransferCollection e params db name))
       \<and> t_err (TransferCollection e params db name) \<noteq> None
       \<and> (src_connect_err e = None \<and> dst_connect_err e = None \<and> dst_list_err e = None \<longrightarrow>
            t_err (TransferCollection e params db name) = Some (ErrDestExists name)
            \<and> t_calls (TransferCollection e params db name) = [EvListCollectionNames]
            \<and> ErrorMessage (t_result (TransferCollection e params db name))
                = ''Failed to transfer collection: destination collection '' @ name
                    @ '' already exists and overwrite is not enabled'')"
  using assms
  by (auto simp: TransferCollection_def transferCollection_def ListCollectionNames_def Let_def
           split: option.splits)

theorem conflict_atomicity_witness:
  "old_users ''users'' \<noteq> None
   \<and> \<not> OverwriteDestination users_and_orders
   \<and> t_dest (TransferCollection three_docs users_and_orders old_users ''users'') = old_users
   \<and> DocumentsCount (t_result (TransferCollection three_docs users_and_orders old_users ''users'')) = 0
   \<and> t_err (TransferCollection three_docs users_and_orders old_users ''users'')
       = Some (ErrDestExists ''users'')
   \<and> t_calls (TransferCollection three_docs users_and_orders old_users ''users'')
       = [EvListCollectionNames]"
proof -
  have h1: "old_users ''users'' \<noteq> None" by (simp add: env_defs)
  have h2: "\<not> OverwriteDestination users_and_orders" by (simp add: run_env_defs)
  have h3: "src_connect_err three_docs = None \<and> dst_connect_err three_docs = None
            \<and> dst_list_err three_docs = None"
    by (simp add: env_defs)
  show ?thesis
    using conflict_atomicity[where db = old_users and name = "''users''"
            and params = users_and_orders and e = three_docs] h1 h2 h3
    by blast
qed

text \<open>
  Claim C5 (read before drop). In every transfer: if the destination collection is
  dropped, the calls before the drop are exactly the existence check and the index
  read; the drop happens exactly when overwrite is on, the destination collection
  existed, and the existence check and the index read succeeded; and if the index
  read fails, the destination is left as it was, with no drop, no index creation and
  no insert, and the transfer fails with zero documents.
\<close>

theorem read_before_drop:
  "(EvDrop \<in> set (calls (transferCollection e db name B0 ow)) \<longrightarrow>
      takeWhile (\<lambda>ev. ev \<noteq> EvDrop) (calls (transferCollection e db name B0 ow))
        = [EvListCollectionNames, EvListIndexes])
   \<and> (EvDrop \<in> set (calls (transferCollection e db name B0 ow)) \<longleftrightarrow>
        ow \<and> db name \<noteq> None \<and> dst_list_err e = None \<and> \<not> isl (getCollectionIndexes e))
   \<and> (isl (getCollectionIndexes e) \<longrightarrow>
        dest (transferCollection e db name B0 ow) = db
        \<and> list_all (\<lambda>ev. \<not> mutation ev) (calls (transferCollection e db name B0 ow))
        \<and> ret_count (transferCollection e db name B0 ow) = 0
        \<and> ret_err (transferCollection e db name B0 ow) \<noteq> None)"
  using index_stage_calls[of e name "if B0 \<le> 0 then 100 else B0" _ _]
  by (auto simp: transferCollection_def ListCollectionNames_def drop_stage_def Drop_def Let_def
           split: sum.splits option.splits if_splits)

theorem read_before_drop_witness:
  "EvDrop \<in> set (calls (transferCollection three_docs old_users ''users'' 2 True))
   \<and> takeWhile (\<lambda>ev. ev \<noteq> EvDrop) (calls (transferCollection three_docs old_users ''users'' 2 True))
        = [EvListCollectionNames, EvListIndexes]
   \<and> isl (getCollectionIndexes index_read_fails)
   \<and> dest (transferCollection index_read_fails old_users ''users'' 2 True) = old_users
   \<and> list_all (\<lambda>ev. \<not> mutation ev) (calls (transferCollection index_read_fails old_users ''users'' 2 True))"
proof -
  have h1: "EvDrop \<in> set (calls (transferCollection three_docs old_users ''users'' 2 True))"
    by (simp add: run_defs env_defs)
  have h2: "isl (getCollectionIndexes index_read_fails)"
    by (simp add: run_defs env_defs)
  show ?thesis
    using read_before_drop[of three_docs old_users "''users''" 2 True]
          read_before_drop[of index_read_fails old_users "''users''" 2 True] h1 h2
    by blast
qed

text \<open>
  Claim C10 (the overwrite flag does not matter when there is no conflict). When the
  destination has no collection of the name, the transfer with overwrite on and the
  transfer with overwrite off are the same: the same count, error, calls and
  destination, and the same outcome of the exported wrapper; no drop is made and the
  error is never "destination exists".
\<close>

theorem overwrite_noninterference:
  assumes "db name = None"
  shows "transferCollection e db name B True = transferCollection e db name B False
       \<and> TransferCollection e (params\<lparr>OverwriteDestination := True\<rparr>) db name
           = TransferCollection e (params\<lparr>OverwriteDestination := False\<rparr>) db name
       \<and> EvDrop \<notin> set (calls (transferCollection e db name B ow))
       \<and> ret_err (transferCollection e db name B ow) \<noteq> Some (ErrDestExists name)"
proof -
  have eq: "transferCollection e db name B True = transferCollection e db name B False" for B
    using assms
    by (simp add: transferCollection_def ListCollectionNames_def drop_stage_def
             split: option.splits sum.splits)
  then have "TransferCollection e (params\<lparr>OverwriteDestination := True\<rparr>) db name
           = TransferCollection e (params\<lparr>OverwriteDestination := False\<rparr>) db name"
    by (simp add: TransferCollection_def Let_def split: option.split)
  then show ?thesis using eq assms by (simp add: drop_iff conflict_iff)
qed

theorem overwrite_noninterference_witness:
  "(Map.empty :: database) ''users'' = None
   \<and> transferCollection three_docs Map.empty ''users'' 2 True
       = transferCollection three_docs Map.empty ''users'' 2 False
   \<and> TransferCollection three_docs (users_and_orders\<lparr>OverwriteDestination := True\<rparr>)
         Map.empty ''users''
       = TransferCollection three_docs (users_and_orders\<lparr>OverwriteDestination := False\<rparr>)
           Map.empty ''users''
   \<and> ret_count (transferCollection three_docs Map.empty ''users'' 2 True) = 3"
proof -
  have h: "(Map.empty :: database) ''users'' = None" by simp
  have c: "ret_count (transferCollection three_docs Map.empty ''users'' 2 True) = 3"
    by (simp add: run_defs env_defs)
  show ?thesis
    using overwrite_noninterference[where db = Map.empty and name = "''users''"
            and e = three_docs and B = 2 and params = users_and_orders and ow = True] h c
    by blast
qed

section \<open>The worker pool and the aggregation\<close>

lemma sum_list_map_update:
  fixes f :: "'a \<Rightarrow> 'b::comm_monoid_add"
  shows "i < length ws \<Longrightarrow>
    sum_list (map f (ws[i := w])) + f (ws ! i) = sum_list (map f ws) + f w"
proof (induction ws arbitrary: i)
  case Nil
  then show ?case by simp
next
  case (Cons a ws)
  show ?case
  proof (cases i)
    case 0
    then show ?thesis by (simp add: ac_simps)
  next
    case (Suc j)
    then have "j < length ws" using Cons.prems by simp
    then have "sum_list (map f (ws[j := w])) + f (ws ! j) = sum_list (map f ws) + f w"
      by (rule Cons.IH)
    then show ?thesis using Suc by (simp add: ac_simps)
  qed
qed

lemma transfer_name: "CollectionName (t_result (TransferCollection e params db c)) = c"
  by (simp add: TransferCollection_def Let_def split: option.split)

lemma step_accounted: "accounted (worker_step params mv p) = accounted p"
proof (cases "fst mv < length (workers p)")
  case False
  then show ?thesis by (simp add: worker_step_def)
next
  case True
  note upd = sum_list_map_update[OF True, where f = held]
  show ?thesis
  proof (cases "workers p ! fst mv")
    case Receiving
    show ?thesis
    proof (cases "collectionCh p")
      case Nil
      then show ?thesis using True Receiving upd[of Exited]
        by (simp add: worker_step_def accounted_def)
    next
      case (Cons c rest)
      then show ?thesis using True Receiving upd[of "Holding c"]
        by (simp add: worker_step_def accounted_def)
    qed
  next
    case (Holding c)
    then show ?thesis using True upd[of Receiving]
      by (simp add: worker_step_def accounted_def Let_def transfer_name)
  next
    case Exited
    then show ?thesis using True by (simp add: worker_step_def)
  qed
qed

lemma run_accounted: "accounted (run_schedule params sched p) = accounted p"
  by (induction sched arbitrary: p) (simp_all add: run_schedule_def step_accounted)

lemma step_length: "length (workers (worker_step params mv p)) = length (workers p)"
  by (simp add: worker_step_def Let_def split: worker.split list.split)

lemma run_length: "length (workers (run_schedule params sched p)) = length (workers p)"
  by (induction sched arbitrary: p) (simp_all add: run_schedule_def step_length)

lemma step_drained: "drained p \<Longrightarrow> drained (worker_step params mv p)"
  by (auto simp: drained_def worker_step_def Let_def
           split: worker.split list.split dest!: set_update_subset_insert[THEN subsetD])

lemma run_drained: "drained p \<Longrightarrow> drained (run_schedule params sched p)"
  by (induction sched arbitrary: p) (simp_all add: run_schedule_def step_drained)

lemma all_exited_held: "list_all (\<lambda>w. w = Exited) ws \<Longrightarrow> sum_list (map held ws) = {#}"
  by (induction ws) auto

lemma finished_names:
  assumes "all_exited p" "drained p" "workers p \<noteq> []"
  shows "mset (map CollectionName (resultCh p)) = accounted p"
proof -
  obtain w ws where "workers p = w # ws" using assms(3) by (cases "workers p") auto
  then have "Exited \<in> set (workers p)" using assms(1) by (simp add: all_exited_def)
  then have "collectionCh p = []" using assms(2) by (simp add: drained_def)
  then show ?thesis using all_exited_held[of "workers p"] assms(1)
    by (simp add: accounted_def all_exited_def)
qed

lemma step_decreases:
  assumes "i < length (workers p)" "workers p ! i \<noteq> Exited"
  shows "pool_measure (worker_step params (i, e) p) < pool_measure p"
proof -
  note upd = sum_list_map_update[OF assms(1), where f = worker_weight]
  show ?thesis
  proof (cases "workers p ! i")
    case Receiving
    show ?thesis
    proof (cases "collectionCh p")
      case Nil
      then show ?thesis using assms(1) Receiving upd[of Exited]
        by (simp add: worker_step_def pool_measure_def)
    next
      case (Cons c rest)
      then show ?thesis using assms(1) Receiving upd[of "Holding c"]
        by (simp add: worker_step_def pool_measure_def)
    qed
  next
    case (Holding c)
    then show ?thesis using assms(1) upd[of Receiving]
      by (simp add: worker_step_def pool_measure_def Let_def)
  next
    case Exited
    then show ?thesis using assms(2) by simp
  qed
qed

text \<open>Whatever the state of the pool, some schedule lets every worker leave its loop.\<close>

lemma pool_finishes: "\<exists>sched. all_exited (run_schedule params sched p) \<and> list_all (\<lambda>mv. snd mv = e) sched"
proof (induction "pool_measure p" arbitrary: p rule: less_induct)
  case less
  show ?case
  proof (cases "all_exited p")
    case True
    then have "all_exited (run_schedule params [] p) \<and> list_all (\<lambda>mv. snd mv = e) []"
      by (simp add: run_schedule_def)
    then show ?thesis by blast
  next
    case False
    then obtain i where i: "i < length (workers p)" "workers p ! i \<noteq> Exited"
      by (auto simp: all_exited_def list_all_length)
    let ?p = "worker_step params (i, e) p"
    have "pool_measure ?p < pool_measure p" using i by (rule step_decreases)
    then obtain sched where s: "all_exited (run_schedule params sched ?p)"
        "list_all (\<lambda>mv. snd mv = e) sched"
      using less by blast
    have "all_exited (run_schedule params ((i, e) # sched) p)
           \<and> list_all (\<lambda>mv. snd mv = e) ((i, e) # sched)"
      using s by (simp add: run_schedule_def)
    then show ?thesis by blast
  qed
qed

lemma collect_results_eq:
  "collect_results rs result t a =
     \<lparr>CollectionResults = CollectionResults result @ rs,
      OverallSuccess = (a \<and> list_all Success rs),
      TotalDocuments = t + sum_list (map DocumentsCount rs)\<rparr>"
  by (induction rs arbitrary: result t a) auto

lemma sum_list_replicate_empty: "sum_list (replicate n ({#} :: string multiset)) = {#}"
  by (induction n) simp_all

lemma start_pool_facts:
  "accounted (start_pool collections workerCount db) = mset collections"
  "drained (start_pool collections workerCount db)"
  "workers (start_pool collections workerCount db) \<noteq> []"
  by (simp_all add: start_pool_def accounted_def drained_def Let_def sum_list_replicate_empty)

lemma pool_names:
  assumes "all_exited (run_schedule params sched (start_pool collections workerCount db))"
  shows "mset (map CollectionName
           (resultCh (run_schedule params sched (start_pool collections workerCount db))))
         = mset collections"
proof -
  let ?p = "run_schedule params sched (start_pool collections workerCount db)"
  have "drained ?p" by (simp add: run_drained start_pool_facts)
  moreover have "workers ?p \<noteq> []"
    using run_length[of params sched "start_pool collections workerCount db"]
          start_pool_facts(3)[of collections workerCount db] by auto
  ultimately have "mset (map CollectionName (resultCh ?p)) = accounted ?p"
    using assms finished_names by blast
  then show ?thesis by (simp add: run_accounted start_pool_facts)
qed

lemma run_schedule_append:
  "run_schedule params (s1 @ s2) p = run_schedule params s2 (run_schedule params s1 p)"
  by (simp add: run_schedule_def)

text \<open>
  Claim C7 (exactly one outcome per collection name). Let the run resolve the
  collection names to \<open>collections\<close>. Under every schedule of the workers and whatever
  the transfers meet, a run that returns has made one outcome per name: the names of
  the outcomes are the names given, as a multiset, and there are as many outcomes as
  names. The pool has 3 workers when the worker count given is not positive. The pool
  always drains: whatever the workers have done so far (any schedule \<open>sched\<close>), the
  schedule can be continued so that the run returns, whatever environment the
  remaining transfers meet; in particular some schedule lets the run return.
\<close>

theorem dispatcher_exactly_once:
  assumes "validate_err re = None" and "GetCollections re params = Inr collections"
  shows "(\<forall>res err db'.
            runTransfer re params workerCount sched db = Some (res, err, db') \<longrightarrow>
              err = None
              \<and> mset (map CollectionName (CollectionResults res)) = mset collections
              \<and> length (CollectionResults res) = length collections)
       \<and> length (workers (start_pool collections workerCount db))
           = nat (if workerCount \<le> 0 then 3 else workerCount)
       \<and> (\<exists>sched'. runTransfer re params workerCount sched' db \<noteq> None
                    \<and> list_all (\<lambda>mv. snd mv = e) sched')
       \<and> (\<exists>rest. runTransfer re params workerCount (sched @ rest) db \<noteq> None
                    \<and> list_all (\<lambda>mv. snd mv = e) rest)"
proof -
  let ?p = "\<lambda>s. run_schedule params s (start_pool collections workerCount db)"
  have run: "runTransfer re params workerCount s db =
      (if length collections = 0
       then Some (\<lparr>CollectionResults = [], OverallSuccess = True, TotalDocuments = 0\<rparr>, None, db)
       else if all_exited (?p s)
       then Some (collect_results (resultCh (?p s))
                    \<lparr>CollectionResults = [], OverallSuccess = True, TotalDocuments = 0\<rparr> 0 True,
                  None, shared_dest (?p s))
       else None)" for s
    using assms by (simp add: runTransfer_def Let_def)
  have a: "err = None \<and> mset (map CollectionName (CollectionResults res)) = mset collections
           \<and> length (CollectionResults res) = length collections"
    if r: "runTransfer re params workerCount sched db = Some (res, err, db')" for res err db'
  proof (cases "length collections = 0")
    case True
    then show ?thesis using r run[of sched] by auto
  next
    case False
    then have ex: "all_exited (?p sched)" using r run[of sched] by (auto split: if_splits)
    then have res: "CollectionResults res = resultCh (?p sched)" "err = None"
      using r run[of sched] False by (auto simp: collect_results_eq)
    have m: "mset (map CollectionName (resultCh (?p sched))) = mset collections"
      using ex by (rule pool_names)
    then have "size (mset (map CollectionName (resultCh (?p sched)))) = size (mset collections)"
      by simp
    then show ?thesis using res m by simp
  qed
  have w: "length (workers (start_pool collections workerCount db))
           = nat (if workerCount \<le> 0 then 3 else workerCount)"
    by (simp add: start_pool_def)
  obtain s where s: "all_exited (?p s)" "list_all (\<lambda>mv. snd mv = e) s"
    using pool_finishes by blast
  then have b: "runTransfer re params workerCount s db \<noteq> None" using run[of s] by simp
  obtain rest where rest: "all_exited (run_schedule params rest (?p sched))"
      "list_all (\<lambda>mv. snd mv = e) rest"
    using pool_finishes by blast
  then have "all_exited (?p (sched @ rest))" by (simp add: run_schedule_append)
  then have c: "runTransfer re params workerCount (sched @ rest) db \<noteq> None"
    using run[of "sched @ rest"] by simp
  show ?thesis using a w b s(2) c rest(2) by blast
qed

lemma interleaved_run:
  "runTransfer quiet_run users_and_orders 2 interleaved old_users
     = Some (\<lparr>CollectionResults =
                [\<lparr>CollectionName = ''orders'', DocumentsCount = 0, Success = True,
                  ErrorMessage = []\<rparr>,
                 \<lparr>CollectionName = ''users'', DocumentsCount = 0, Success = False,
                  ErrorMessage = ''Failed to transfer collection: destination collection users already exists and overwrite is not enabled''\<rparr>],
              OverallSuccess = False, TotalDocuments = 0\<rparr>, None, old_users)"
  by (simp add: pool_defs run_env_defs run_defs env_defs numeral_2_eq_2)

lemma interleaved_prefix:
  "runTransfer quiet_run users_and_orders 2 (take 2 interleaved) old_users = None"
  by (simp add: pool_defs run_env_defs run_defs env_defs numeral_2_eq_2)

theorem dispatcher_exactly_once_witness:
  "validate_err quiet_run = None
   \<and> GetCollections quiet_run users_and_orders = Inr [''users'', ''orders'']
   \<and> map_option (\<lambda>r. map CollectionName (CollectionResults (fst r)))
        (runTransfer quiet_run users_and_orders 2 interleaved old_users)
       = Some [''orders'', ''users'']
   \<and> mset [''orders'', ''users''] = mset [''users'', ''orders'']
   \<and> runTransfer quiet_run users_and_orders 2 (take 2 interleaved) old_users = None
   \<and> (\<exists>rest. runTransfer quiet_run users_and_orders 2 (take 2 interleaved @ rest) old_users
                 \<noteq> None
               \<and> list_all (\<lambda>mv. snd mv = second_insert_fails) rest)"
proof -
  have h1: "validate_err quiet_run = None" by (simp add: run_env_defs)
  have h2: "GetCollections quiet_run users_and_orders = Inr [''users'', ''orders'']"
    by (simp add: GetCollections_def run_env_defs)
  have "mset (map CollectionName
          [\<lparr>CollectionName = ''orders'', DocumentsCount = 0, Success = True, ErrorMessage = []\<rparr>,
           \<lparr>CollectionName = ''users'', DocumentsCount = 0, Success = False,
             ErrorMessage = ''Failed to transfer collection: destination collection users already exists and overwrite is not enabled''\<rparr>])
        = mset [''users'', ''orders'']"
    using dispatcher_exactly_once[OF h1 h2, of 2 interleaved old_users] interleaved_run
    by simp
  moreover have "\<exists>rest. runTransfer quiet_run users_and_orders 2 (take 2 interleaved @ rest) old_users
                 \<noteq> None
               \<and> list_all (\<lambda>mv. snd mv = second_insert_fails) rest"
    using dispatcher_exactly_once[OF h1 h2, of 2 "take 2 interleaved" old_users second_insert_fails]
    by blast
  ultimately show ?thesis using h1 h2 interleaved_run interleaved_prefix by simp
qed

text \<open>
  Claim C8 (aggregation contract). In the result of every run that returns, the overall
  success flag is true exactly when every collection outcome has a true success flag,
  and the total is the sum of the outcomes' document counts.
\<close>

theorem aggregation_contract:
  assumes "runTransfer re params workerCount sched db = Some (res, err, db')"
  shows "(OverallSuccess res \<longleftrightarrow> (\<forall>r \<in> set (CollectionResults res). Success r))
       \<and> TotalDocuments res = sum_list (map DocumentsCount (CollectionResults res))"
  using assms
  by (auto simp: runTransfer_def Let_def collect_results_eq list_all_iff
           split: option.splits sum.splits if_splits)

theorem aggregation_contract_witness:
  "runTransfer quiet_run users_and_orders 2 interleaved old_users
     = Some (\<lparr>CollectionResults =
                [\<lparr>CollectionName = ''orders'', DocumentsCount = 0, Success = True,
                  ErrorMessage = []\<rparr>,
                 \<lparr>CollectionName = ''users'', DocumentsCount = 0, Success = False,
                  ErrorMessage = ''Failed to transfer collection: destination collection users already exists and overwrite is not enabled''\<rparr>],
              OverallSuccess = False, TotalDocuments = 0\<rparr>, None, old_users)
   \<and> \<not> list_all Success
          [\<lparr>CollectionName = ''orders'', DocumentsCount = 0, Success = True, ErrorMessage = []\<rparr>,
           \<lparr>CollectionName = ''users'', DocumentsCount = 0, Success = False,
             ErrorMessage = ''Failed to transfer collection: destination collection users already exists and overwrite is not enabled''\<rparr>]"
  using aggregation_contract[OF interleaved_run] interleaved_run by simp

text \<open>
  Claim C9 (empty-set run), as the code has it. A request that names no collection is
  not an empty run: \<open>GetCollections\<close> then takes every collection of the source
  database. With no collection named and a source database holding \<open>users\<close> with three
  documents, the run makes one outcome and totals 3.
\<close>

theorem empty_request_counterexample:
  "Collections no_collections_given = []
   \<and> map_option fst (runTransfer source_has_users no_collections_given 1
        [(0, three_docs), (0, three_docs), (0, three_docs)] Map.empty)
     = Some \<lparr>CollectionResults =
               [\<lparr>CollectionName = ''users'', DocumentsCount = 3, Success = True,
                 ErrorMessage = []\<rparr>],
             OverallSuccess = True, TotalDocuments = 3\<rparr>"
  by (simp add: pool_defs run_env_defs run_defs env_defs)

text \<open>
  What holds: when the request names no collection and the source database lists
  none, the run returns no outcome, total 0 and overall success, under every schedule
  and worker count, and leaves the destination as it was.
\<close>

theorem empty_run:
  assumes "validate_err re = None" and "get_connect_err re = None"
      and "Collections params = []" and "src_collection_names re = Inr []"
  shows "runTransfer re params workerCount sched db =
           Some (\<lparr>CollectionResults = [], OverallSuccess = True, TotalDocuments = 0\<rparr>, None, db)"
  using assms by (simp add: runTransfer_def GetCollections_def)

theorem empty_run_witness:
  "validate_err quiet_run = None \<and> get_connect_err quiet_run = None
   \<and> Collections no_collections_given = [] \<and> src_collection_names quiet_run = Inr []
   \<and> runTransfer quiet_run no_collections_given 3 [] old_users =
        Some (\<lparr>CollectionResults = [], OverallSuccess = True, TotalDocuments = 0\<rparr>, None, old_users)"
proof -
  have h: "validate_err quiet_run = None" "get_connect_err quiet_run = None"
    "Collections no_collections_given = []" "src_collection_names quiet_run = Inr []"
    by (simp_all add: run_env_defs)
  show ?thesis using empty_run[OF h, of 3 "[]" old_users] h by simp
qed

end
